theory Spec2Isabelle
  imports Main "HOL-Library.Word" "HOL-Library.Monad_Syntax"
begin

unbundle bit_operations_syntax

section \<open>The native pipe-creation entry point of IOCipher\<close>

text \<open>
  The repository's only source file, \<^verbatim>\<open>jni/info_guardianproject_iocipher_Pipes.c\<close>,
  defines one function, \<^verbatim>\<open>Java_info_guardianproject_iocipher_Pipes_createfifonative\<close>:
  eleven assignments \<^verbatim>\<open>status = mkfifo(path, mode);\<close> on literal arguments, and
  nothing else. The function is modelled statement by statement over an explicit frame
  (the filesystem, the local variable and a log of the completed calls); the system call
  \<^verbatim>\<open>mkfifo\<close> is a parameter of the model.
\<close>

subsection \<open>Permission macros\<close>

type_synonym mode_t = "32 word"

text \<open>
  Modelled from the spec: the permission macros of \<^verbatim>\<open><sys/stat.h>\<close>, which the
  source uses and the repository does not define. The spec (sections 6 and 9) reads the
  mask as read and write for each of owner, group and other; the values are the ones
  POSIX fixes: 0400, 0200, 0100, 040, 020, 010, 04, 02, 01 (octal).
\<close>

definition S_IRUSR :: mode_t where "S_IRUSR = 0x100"
definition S_IWUSR :: mode_t where "S_IWUSR = 0x80"
definition S_IXUSR :: mode_t where "S_IXUSR = 0x40"
definition S_IRGRP :: mode_t where "S_IRGRP = 0x20"
definition S_IWGRP :: mode_t where "S_IWGRP = 0x10"
definition S_IXGRP :: mode_t where "S_IXGRP = 0x8"
definition S_IROTH :: mode_t where "S_IROTH = 0x4"
definition S_IWOTH :: mode_t where "S_IWOTH = 0x2"
definition S_IXOTH :: mode_t where "S_IXOTH = 0x1"

subsection \<open>Frames and the system-call parameter\<close>

text \<open>
  A system call takes the filesystem, a path and a mode, and returns its status together
  with the filesystem it leaves; \<open>None\<close> stands for a call that never returns.
\<close>

type_synonym 'fs syscall = "'fs \<Rightarrow> string \<Rightarrow> mode_t \<Rightarrow> (int \<times> 'fs) option"

text \<open>
  The frame of one invocation: the filesystem, the local \<^verbatim>\<open>int status\<close>
  (\<open>None\<close> while uninitialised) and, as a ghost field, the log of the calls that have
  returned, each with its path, its mode and the status it returned.
\<close>

record 'fs frame =
  fs :: 'fs
  status :: "int option"
  log :: "(string \<times> mode_t \<times> int) list"

definition init_frame :: "'fs \<Rightarrow> 'fs frame" where
  "init_frame fs0 = \<lparr>fs = fs0, status = None, log = []\<rparr>"

text \<open>The statement \<^verbatim>\<open>status = mkfifo(path, mode);\<close>.\<close>

definition assign_mkfifo :: "'fs syscall \<Rightarrow> string \<Rightarrow> mode_t \<Rightarrow> 'fs frame \<Rightarrow> 'fs frame option" where
  "assign_mkfifo mkfifo path mode s =
     (case mkfifo (fs s) path mode of
        None \<Rightarrow> None
      | Some (r, fs') \<Rightarrow>
          Some (s\<lparr>fs := fs', status := Some r, log := log s @ [(path, mode, r)]\<rparr>))"

subsection \<open>The entry point\<close>

text \<open>
  The body of the function, lines 34 to 45 of the source. The parameter
  \<^verbatim>\<open>JNIEnv* env\<close> is never used and is left out.
\<close>

definition createfifonative_body :: "'fs syscall \<Rightarrow> 'fs frame \<Rightarrow> 'fs frame option" where
  "createfifonative_body mkfifo s0 = do {
     s1 \<leftarrow> assign_mkfifo mkfifo ''/storage/emulated/legacy/DCIM/foo.jpg''
       (S_IWUSR OR S_IRUSR OR S_IRGRP OR S_IWGRP OR S_IROTH OR S_IWOTH) s0;
     s2 \<leftarrow> assign_mkfifo mkfifo ''/data/data/info.guardianproject.securecamtest/pipe0''
       (S_IWUSR OR S_IRUSR OR S_IRGRP OR S_IWGRP OR S_IROTH OR S_IWOTH) s1;
     s3 \<leftarrow> assign_mkfifo mkfifo ''/data/data/info.guardianproject.securecamtest/pipe1''
       (S_IWUSR OR S_IRUSR OR S_IRGRP OR S_IWGRP OR S_IROTH OR S_IWOTH) s2;
     s4 \<leftarrow> assign_mkfifo mkfifo ''/data/data/info.guardianproject.securecamtest/pipe2''
       (S_IWUSR OR S_IRUSR OR S_IRGRP OR S_IWGRP OR S_IROTH OR S_IWOTH) s3;
     s5 \<leftarrow> assign_mkfifo mkfifo ''/data/data/info.guardianproject.securecamtest/pipe3''
       (S_IWUSR OR S_IRUSR OR S_IRGRP OR S_IWGRP OR S_IROTH OR S_IWOTH) s4;
     s6 \<leftarrow> assign_mkfifo mkfifo ''/data/data/info.guardianproject.securecamtest/pipe4''
       (S_IWUSR OR S_IRUSR OR S_IRGRP OR S_IWGRP OR S_IROTH OR S_IWOTH) s5;
     s7 \<leftarrow> assign_mkfifo mkfifo ''/data/data/info.guardianproject.securecamtest/pipe5''
       (S_IWUSR OR S_IRUSR OR S_IRGRP OR S_IWGRP OR S_IROTH OR S_IWOTH) s6;
     s8 \<leftarrow> assign_mkfifo mkfifo ''/data/data/info.guardianproject.securecamtest/pipe6''
       (S_IWUSR OR S_IRUSR OR S_IRGRP OR S_IWGRP OR S_IROTH OR S_IWOTH) s7;
     s9 \<leftarrow> assign_mkfifo mkfifo ''/data/data/info.guardianproject.securecamtest/pipe7''
       (S_IWUSR OR S_IRUSR OR S_IRGRP OR S_IWGRP OR S_IROTH OR S_IWOTH) s8;
     s10 \<leftarrow> assign_mkfifo mkfifo ''/data/data/info.guardianproject.securecamtest/pipe8''
       (S_IWUSR OR S_IRUSR OR S_IRGRP OR S_IWGRP OR S_IROTH OR S_IWOTH) s9;
     s11 \<leftarrow> assign_mkfifo mkfifo ''/data/data/info.guardianproject.securecamtest/pipe9''
       (S_IWUSR OR S_IRUSR OR S_IRGRP OR S_IWGRP OR S_IROTH OR S_IWOTH) s10;
     Some s11
   }"

text \<open>
  The function returns \<^verbatim>\<open>void\<close>: its frame, with the local \<^verbatim>\<open>status\<close>, is gone
  at the return, and the caller is left with the filesystem alone.
\<close>

definition createfifonative :: "'fs syscall \<Rightarrow> 'fs \<Rightarrow> 'fs option" where
  "createfifonative mkfifo fs0 = map_option fs (createfifonative_body mkfifo (init_frame fs0))"

subsection \<open>Reading the log\<close>

definition issued :: "'fs frame \<Rightarrow> (string \<times> mode_t) list" where
  "issued s = map (\<lambda>(p, m, r). (p, m)) (log s)"

definition statuses :: "'fs frame \<Rightarrow> int list" where
  "statuses s = map (\<lambda>(p, m, r). r) (log s)"

text \<open>A system call returns when it yields a status in every filesystem, on every argument.\<close>

definition returns :: "'fs syscall \<Rightarrow> bool" where
  "returns mkfifo = (\<forall>f p m. mkfifo f p m \<noteq> None)"

subsection \<open>The batch of the entry point, and a batch runner for the proofs\<close>

text \<open>
  The eleven requests the body makes, as data: the camera path, then the ten pipes of
  the application's data directory, numbered by the digits in ascending order, each
  with mode 0666 (438).
\<close>

definition batch :: "(string \<times> mode_t) list" where
  "batch = (''/storage/emulated/legacy/DCIM/foo.jpg'', 438) #
     map (\<lambda>d. (''/data/data/info.guardianproject.securecamtest/pipe'' @ [d], 438)) ''0123456789''"

text \<open>
  Running a list of requests, one assignment after the other. The source has no such
  loop: the body above is shown to be the run of \<open>batch\<close> (lemma \<open>body_run\<close>), and the
  runs of the prefixes of \<open>batch\<close> are the states between its statements.
\<close>

fun run :: "'fs syscall \<Rightarrow> (string \<times> mode_t) list \<Rightarrow> 'fs frame \<Rightarrow> 'fs frame option" where
  "run mkfifo [] s = Some s"
| "run mkfifo ((p, m) # rs) s =
     (case assign_mkfifo mkfifo p m s of None \<Rightarrow> None | Some s' \<Rightarrow> run mkfifo rs s')"

subsection \<open>The filesystem and \<^verbatim>\<open>mkfifo\<close>\<close>

text \<open>
  Modelled from the spec: the system call \<^verbatim>\<open>mkfifo\<close> and the filesystem it works on,
  which the source calls and the repository does not define. Following section 4.1 of the
  spec, a creation attempt succeeds, or fails because the path already holds a node,
  because the containing directory is missing (or is no directory), or because the
  filesystem denies the permission or reports another failure (section 7: a read-only
  filesystem); following section 8, a created pipe carries the requested mode bits less
  those of the umask. The status is the one of POSIX: 0 on success, -1 on failure, the
  cause being left in \<^verbatim>\<open>errno\<close>, and a failed call changes nothing.
\<close>

datatype node = Fifo mode_t | Regular mode_t string | Directory bool

record filesys =
  nodes :: "string \<Rightarrow> node option"
  umask :: mode_t
  readonly :: bool

datatype errno = EEXIST | ENOENT | ENOTDIR | EACCES | EROFS

text \<open>The containing directory of a path: everything before its last slash.\<close>

definition dirname :: "string \<Rightarrow> string" where
  "dirname p = rev (tl (dropWhile (\<lambda>c. c \<noteq> CHR ''/'') (rev p)))"

text \<open>
  The error a creation attempt at \<open>p\<close> meets in \<open>f\<close>, if any. The flag of a directory says
  whether the caller may create entries in it.
\<close>

definition mkfifo_errno :: "filesys \<Rightarrow> string \<Rightarrow> errno option" where
  "mkfifo_errno f p =
     (case nodes f (dirname p) of
        None \<Rightarrow> Some ENOENT
      | Some (Fifo m) \<Rightarrow> Some ENOTDIR
      | Some (Regular m c) \<Rightarrow> Some ENOTDIR
      | Some (Directory w) \<Rightarrow>
          (if nodes f p \<noteq> None then Some EEXIST
           else if readonly f then Some EROFS
           else if w then None
           else Some EACCES))"

definition mkfifo_posix :: "filesys syscall" where
  "mkfifo_posix f p m =
     (case mkfifo_errno f p of
        Some e \<Rightarrow> Some (- 1, f)
      | None \<Rightarrow> Some (0, f\<lparr>nodes := (nodes f)(p \<mapsto> Fifo (m AND NOT (umask f)))\<rparr>))"

text \<open>The paths a frame's log reports as created: those of the calls with status 0.\<close>

definition created :: "'fs frame \<Rightarrow> string set" where
  "created s = {p. \<exists>m. (p, m, 0) \<in> set (log s)}"

subsection \<open>Invariants of a run on this filesystem\<close>

text \<open>
  The frame \<open>s\<close> of a run that started on \<open>f\<close> differs from \<open>f\<close> by the pipes its log
  reports as created, each at a path that was free in \<open>f\<close>, with the mode asked for less
  the umask.
\<close>

definition grown :: "filesys \<Rightarrow> filesys frame \<Rightarrow> bool" where
  "grown f s \<longleftrightarrow>
     umask (fs s) = umask f \<and> readonly (fs s) = readonly f \<and>
     (\<forall>p. p \<notin> created s \<longrightarrow> nodes (fs s) p = nodes f p) \<and>
     (\<forall>p m. (p, m, 0) \<in> set (log s) \<longrightarrow>
        nodes f p = None \<and> nodes (fs s) p = Some (Fifo (m AND NOT (umask f))))"

text \<open>Every path of the log is one where a further attempt fails.\<close>

definition settled :: "filesys frame \<Rightarrow> bool" where
  "settled s \<longleftrightarrow> (\<forall>p m r. (p, m, r) \<in> set (log s) \<longrightarrow> mkfifo_errno (fs s) p \<noteq> None)"

text \<open>Every logged attempt on a path that was creatable in \<open>f\<close> has status 0.\<close>

definition served :: "filesys \<Rightarrow> filesys frame \<Rightarrow> bool" where
  "served f s \<longleftrightarrow> (\<forall>p m r. (p, m, r) \<in> set (log s) \<longrightarrow> mkfifo_errno f p = None \<longrightarrow> r = 0)"

text \<open>
  Requests are independent when no path occurs twice and no path is the containing
  directory of another.
\<close>

definition independent :: "(string \<times> mode_t) list \<Rightarrow> bool" where
  "independent rs \<longleftrightarrow>
     distinct (map fst rs) \<and> (\<forall>p \<in> set (map fst rs). dirname p \<notin> set (map fst rs))"

text \<open>A second invocation on the filesystem the first one leaves.\<close>

definition rerun :: "filesys \<Rightarrow> filesys frame option" where
  "rerun f = (case createfifonative mkfifo_posix f of
       None \<Rightarrow> None
     | Some f1 \<Rightarrow> createfifonative_body mkfifo_posix (init_frame f1))"

subsection \<open>Some filesystems\<close>

text \<open>Nothing at all: not even the two directories.\<close>

definition empty_fs :: filesys where
  "empty_fs = \<lparr>nodes = Map.empty, umask = 0, readonly = False\<rparr>"

text \<open>The two directories of the batch, writable and empty.\<close>

definition fresh_fs :: filesys where
  "fresh_fs = \<lparr>nodes = [''/storage/emulated/legacy/DCIM'' \<mapsto> Directory True,
       ''/data/data/info.guardianproject.securecamtest'' \<mapsto> Directory True],
     umask = 0, readonly = False\<rparr>"

text \<open>The same with a picture already stored at the first path of the batch.\<close>

definition photo_fs :: filesys where
  "photo_fs = fresh_fs\<lparr>nodes := (nodes fresh_fs)
       (''/storage/emulated/legacy/DCIM/foo.jpg'' \<mapsto> Regular 416 ''JFIF'')\<rparr>"

text \<open>The application's data directory alone.\<close>

definition data_fs :: filesys where
  "data_fs = \<lparr>nodes = [''/data/data/info.guardianproject.securecamtest'' \<mapsto> Directory True],
     umask = 0, readonly = False\<rparr>"

text \<open>Two system calls that ignore the filesystem: one always succeeds, one always fails.\<close>

definition mkfifo_ok :: "unit syscall" where
  "mkfifo_ok f p m = Some (0, f)"

definition mkfifo_fail :: "unit syscall" where
  "mkfifo_fail f p m = Some (- 1, f)"

subsection \<open>Observing the system call\<close>

text \<open>
  A system call under observation: the filesystem is paired with a transcript, to which
  the system call itself, each time it is called, adds the arguments it received and the
  status it answered. Nothing else writes the transcript, so that it holds what reached
  the system call, whatever a frame's log says.
\<close>

definition recording :: "'fs syscall \<Rightarrow> ('fs \<times> (string \<times> mode_t \<times> int) list) syscall" where
  "recording mkfifo ft p m =
     (case mkfifo (fst ft) p m of
        None \<Rightarrow> None
      | Some (r, f') \<Rightarrow> Some (r, (f', snd ft @ [(p, m, r)])))"

text \<open>The requests of a transcript: its entries without the statuses.\<close>

definition calls_of :: "(string \<times> mode_t \<times> int) list \<Rightarrow> (string \<times> mode_t) list" where
  "calls_of tr = map (\<lambda>(p, m, r). (p, m)) tr"

text \<open>A frame seen with its log as the transcript of the filesystem (for the proofs).\<close>

definition with_transcript :: "'fs frame \<Rightarrow> ('fs \<times> (string \<times> mode_t \<times> int) list) frame" where
  "with_transcript s = \<lparr>fs = (fs s, log s), status = status s, log = log s\<rparr>"

text \<open>A system call that never returns.\<close>

definition mkfifo_hang :: "unit syscall" where
  "mkfifo_hang f p m = None"

text \<open>The modelled system call with its failures hushed: the same effects, the answer always 0.\<close>

definition mkfifo_quiet :: "filesys syscall" where
  "mkfifo_quiet f p m = map_option (\<lambda>(r, f'). (0, f')) (mkfifo_posix f p m)"

section \<open>The entry point is a run of its batch\<close>

lemma mode_value:
  "S_IWUSR OR S_IRUSR OR S_IRGRP OR S_IWGRP OR S_IROTH OR S_IWOTH = (438 :: mode_t)"
  by (simp add: S_IWUSR_def S_IRUSR_def S_IRGRP_def S_IWGRP_def S_IROTH_def S_IWOTH_def)

lemma body_run: "createfifonative_body mkfifo s = run mkfifo batch s"
  by (simp add: createfifonative_body_def batch_def mode_value split: option.splits)

section \<open>Statements and runs\<close>

lemma assign_SomeD:
  "assign_mkfifo mkfifo p m s = Some s' \<Longrightarrow>
     \<exists>r f'. mkfifo (fs s) p m = Some (r, f') \<and>
       s' = s\<lparr>fs := f', status := Some r, log := log s @ [(p, m, r)]\<rparr>"
  by (auto simp: assign_mkfifo_def split: option.splits)

lemma assign_returns: "returns mkfifo \<Longrightarrow> \<exists>s'. assign_mkfifo mkfifo p m s = Some s'"
  by (auto simp: assign_mkfifo_def returns_def split: option.splits)

lemma run_append:
  "run mkfifo (xs @ ys) s =
     (case run mkfifo xs s of None \<Rightarrow> None | Some s1 \<Rightarrow> run mkfifo ys s1)"
  by (induction xs arbitrary: s) (auto split: option.splits)

lemma run_returns: "returns mkfifo \<Longrightarrow> \<exists>s'. run mkfifo rs s = Some s'"
proof (induction rs arbitrary: s)
  case Nil
  show ?case by simp
next
  case (Cons r rs)
  obtain p m where r: "r = (p, m)" by (cases r)
  obtain s1 where "assign_mkfifo mkfifo p m s = Some s1"
    using assign_returns[OF Cons.prems] by blast
  with Cons.IH[OF Cons.prems, of s1] r show ?case by simp
qed

lemma run_issued: "run mkfifo rs s = Some s' \<Longrightarrow> issued s' = issued s @ rs"
proof (induction rs arbitrary: s)
  case Nil
  then show ?case by simp
next
  case (Cons r rs)
  obtain p m where r: "r = (p, m)" by (cases r)
  from Cons.prems r obtain s1 where
    s1: "assign_mkfifo mkfifo p m s = Some s1" and rest: "run mkfifo rs s1 = Some s'"
    by (auto split: option.splits)
  from assign_SomeD[OF s1] have "issued s1 = issued s @ [(p, m)]"
    by (auto simp: issued_def)
  with Cons.IH[OF rest] r show ?case by simp
qed

lemma length_issued: "length (issued s) = length (log s)"
  by (simp add: issued_def)

lemma length_statuses: "length (statuses s) = length (log s)"
  by (simp add: statuses_def)

lemma issued_init: "issued (init_frame f) = []"
  by (simp add: issued_def init_frame_def)

lemma run_snoc_status:
  assumes "run mkfifo (xs @ [(p, m)]) s = Some s'"
  shows "\<exists>r. status s' = Some r \<and> last (log s') = (p, m, r)"
proof -
  from assms obtain s1 where "assign_mkfifo mkfifo p m s1 = Some s'"
    by (auto simp: run_append split: option.splits)
  from assign_SomeD[OF this] show ?thesis by auto
qed

lemma batch_list:
  "batch =
    [(''/storage/emulated/legacy/DCIM/foo.jpg'', 438),
     (''/data/data/info.guardianproject.securecamtest/pipe0'', 438),
     (''/data/data/info.guardianproject.securecamtest/pipe1'', 438),
     (''/data/data/info.guardianproject.securecamtest/pipe2'', 438),
     (''/data/data/info.guardianproject.securecamtest/pipe3'', 438),
     (''/data/data/info.guardianproject.securecamtest/pipe4'', 438),
     (''/data/data/info.guardianproject.securecamtest/pipe5'', 438),
     (''/data/data/info.guardianproject.securecamtest/pipe6'', 438),
     (''/data/data/info.guardianproject.securecamtest/pipe7'', 438),
     (''/data/data/info.guardianproject.securecamtest/pipe8'', 438),
     (''/data/data/info.guardianproject.securecamtest/pipe9'', 438)]"
  by (simp add: batch_def)

lemma length_batch: "length batch = 11"
  by (simp add: batch_def)

lemma mkfifo_posix_returns: "returns mkfifo_posix"
  by (simp add: returns_def mkfifo_posix_def split: option.splits)

lemma mkfifo_ok_returns: "returns mkfifo_ok"
  by (simp add: returns_def mkfifo_ok_def)

lemma mkfifo_fail_returns: "returns mkfifo_fail"
  by (simp add: returns_def mkfifo_fail_def)

lemma mode_bits:
  "(438 :: mode_t) = S_IRUSR OR S_IWUSR OR S_IRGRP OR S_IWGRP OR S_IROTH OR S_IWOTH"
  "(438 :: mode_t) AND (S_IXUSR OR S_IXGRP OR S_IXOTH) = 0"
  "(438 :: mode_t) = 6 * 8 * 8 + 6 * 8 + 6"
  by (simp_all add: S_IWUSR_def S_IRUSR_def S_IRGRP_def S_IWGRP_def S_IROTH_def S_IWOTH_def
      S_IXUSR_def S_IXGRP_def S_IXOTH_def)



lemma log_init: "log (init_frame f) = []"
  by (simp add: init_frame_def)

lemma run_log_length: "run mkfifo rs s = Some s' \<Longrightarrow> length (log s') = length (log s) + length rs"
  using run_issued[of mkfifo rs s s'] length_issued[of s'] length_issued[of s]
  by simp

lemma run_paths: "run mkfifo rs s = Some s' \<Longrightarrow> map fst (log s') = map fst (log s) @ map fst rs"
proof -
  assume "run mkfifo rs s = Some s'"
  then have "map fst (issued s') = map fst (issued s @ rs)"
    by (simp add: run_issued)
  then show ?thesis
    by (simp add: issued_def split_def comp_def)
qed

lemma entry_of_body:
  "createfifonative_body mkfifo (init_frame f) = Some s' \<Longrightarrow> createfifonative mkfifo f = Some (fs s')"
  by (simp add: createfifonative_def)

section \<open>Control flow\<close>

text \<open>
  Claim C10. The control flow and the return of the entry point do not depend on what the
  filesystem answers: take any two runs, on any two filesystems and with any two
  behaviours of the creation call (so with any combination of successes and failures);
  as long as the calls return, both runs make the same calls with the same arguments in
  the same order, and both return normally.
\<close>

theorem calls_independent_of_statuses:
  assumes "returns mkfifo" and "returns mkfifo'"
  shows "\<exists>s s'. createfifonative_body mkfifo (init_frame f) = Some s \<and>
     createfifonative_body mkfifo' (init_frame f') = Some s' \<and>
     issued s = issued s' \<and>
     createfifonative mkfifo f = Some (fs s) \<and>
     createfifonative mkfifo' f' = Some (fs s')"
proof -
  obtain s where s: "run mkfifo batch (init_frame f) = Some s"
    using run_returns[OF assms(1)] by blast
  obtain s' where s': "run mkfifo' batch (init_frame f') = Some s'"
    using run_returns[OF assms(2)] by blast
  have "issued s = batch" "issued s' = batch"
    using run_issued[OF s] run_issued[OF s'] by (simp_all add: issued_init)
  then have iss: "issued s = issued s'" by simp
  have b: "createfifonative_body mkfifo (init_frame f) = Some s"
    using s by (simp only: body_run)
  have b': "createfifonative_body mkfifo' (init_frame f') = Some s'"
    using s' by (simp only: body_run)
  from b b' iss entry_of_body[OF b] entry_of_body[OF b'] show ?thesis
    by (intro exI[of _ s] exI[of _ s'] conjI)
qed

text \<open>
  The witness takes a run in which every call succeeds and a run in which every call
  fails.
\<close>

theorem calls_independent_of_statuses_witness:
  "returns mkfifo_ok \<and> returns mkfifo_fail \<and>
   (\<exists>s s'. createfifonative_body mkfifo_ok (init_frame ()) = Some s \<and>
     createfifonative_body mkfifo_fail (init_frame ()) = Some s' \<and>
     issued s = issued s' \<and>
     createfifonative mkfifo_ok () = Some (fs s) \<and>
     createfifonative mkfifo_fail () = Some (fs s'))"
  using calls_independent_of_statuses[OF mkfifo_ok_returns mkfifo_fail_returns, of "()" "()"]
    mkfifo_ok_returns mkfifo_fail_returns
  by (intro conjI)

section \<open>One call on the modelled filesystem\<close>

lemma errno_None_iff:
  "mkfifo_errno f p = None \<longleftrightarrow>
     nodes f (dirname p) = Some (Directory True) \<and> nodes f p = None \<and> \<not> readonly f"
  by (auto simp: mkfifo_errno_def split: option.splits node.splits)

lemma assign_posix_ok:
  assumes "mkfifo_errno (fs s) p = None"
  shows "assign_mkfifo mkfifo_posix p m s =
     Some (s\<lparr>fs := (fs s)\<lparr>nodes := (nodes (fs s))(p \<mapsto> Fifo (m AND NOT (umask (fs s))))\<rparr>,
       status := Some 0, log := log s @ [(p, m, 0)]\<rparr>)"
  using assms by (simp add: assign_mkfifo_def mkfifo_posix_def)

lemma assign_posix_fail:
  assumes "mkfifo_errno (fs s) p = Some e"
  shows "assign_mkfifo mkfifo_posix p m s =
     Some (s\<lparr>status := Some (- 1), log := log s @ [(p, m, - 1)]\<rparr>)"
  using assms by (simp add: assign_mkfifo_def mkfifo_posix_def)

lemma created_snoc_ok: "created (s\<lparr>fs := g, status := x, log := log s @ [(p, m, 0)]\<rparr>) = insert p (created s)"
  by (auto simp: created_def)

lemma created_snoc_fail: "created (s\<lparr>status := x, log := log s @ [(p, m, - 1)]\<rparr>) = created s"
  by (auto simp: created_def)

lemma created_subset: "created s \<subseteq> fst ` set (log s)"
  by (force simp: created_def)

lemma assign_grown:
  assumes g: "grown f s" and a: "assign_mkfifo mkfifo_posix p m s = Some s'"
  shows "grown f s'"
proof (cases "mkfifo_errno (fs s) p")
  case None
  then have free: "nodes (fs s) p = None" by (simp add: errno_None_iff)
  have notin: "p \<notin> created s"
  proof
    assume "p \<in> created s"
    then obtain m' where "(p, m', 0) \<in> set (log s)" by (auto simp: created_def)
    with g have "nodes (fs s) p \<noteq> None" by (auto simp: grown_def)
    with free show False by simp
  qed
  with g free have f_free: "nodes f p = None" by (simp add: grown_def)
  from a assign_posix_ok[OF None, of m] have s': "s' = s\<lparr>fs := (fs s)\<lparr>nodes := (nodes (fs s))(p \<mapsto> Fifo (m AND NOT (umask (fs s))))\<rparr>,
       status := Some 0, log := log s @ [(p, m, 0)]\<rparr>" by simp
  have c: "created s' = insert p (created s)"
    unfolding s' by (rule created_snoc_ok)
  show ?thesis
    unfolding grown_def c
  proof (intro conjI allI impI)
    show "umask (fs s') = umask f" using g by (simp add: s' grown_def)
    show "readonly (fs s') = readonly f" using g by (simp add: s' grown_def)
  next
    fix q assume "q \<notin> insert p (created s)"
    then show "nodes (fs s') q = nodes f q" using g by (simp add: s' grown_def)
  next
    fix q m' assume "(q, m', 0) \<in> set (log s')"
    then have "(q = p \<and> m' = m) \<or> (q, m', 0) \<in> set (log s)" by (auto simp: s')
    then show "nodes f q = None"
      using f_free g by (auto simp: grown_def)
  next
    fix q m' assume "(q, m', 0) \<in> set (log s')"
    then consider "q = p" "m' = m" | "(q, m', 0) \<in> set (log s)" by (auto simp: s')
    then show "nodes (fs s') q = Some (Fifo (m' AND NOT (umask f)))"
    proof cases
      case 1
      then show ?thesis using g by (simp add: s' grown_def)
    next
      case 2
      with g have old: "nodes (fs s) q = Some (Fifo (m' AND NOT (umask f)))"
        by (simp add: grown_def)
      with free have "q \<noteq> p" by auto
      with old show ?thesis by (simp add: s')
    qed
  qed
next
  case (Some e)
  from a assign_posix_fail[OF Some, of m] have s': "s' = s\<lparr>status := Some (- 1), log := log s @ [(p, m, - 1)]\<rparr>" by simp
  have c: "created s' = created s"
    unfolding s' by (rule created_snoc_fail)
  show ?thesis
    using g unfolding grown_def c by (auto simp: s')
qed

lemma run_grown:
  "grown f s \<Longrightarrow> run mkfifo_posix rs s = Some s' \<Longrightarrow> grown f s'"
proof (induction rs arbitrary: s)
  case Nil
  then show ?case by simp
next
  case (Cons x rs)
  obtain p m where x: "x = (p, m)" by (cases x)
  from Cons.prems(2) x obtain s1 where
    s1: "assign_mkfifo mkfifo_posix p m s = Some s1" and rest: "run mkfifo_posix rs s1 = Some s'"
    by (auto split: option.splits)
  from Cons.IH[OF assign_grown[OF Cons.prems(1) s1] rest] show ?case .
qed

lemma grown_init: "grown f (init_frame f)"
  by (simp add: grown_def init_frame_def created_def)

lemma errno_exists: "nodes f p \<noteq> None \<Longrightarrow> mkfifo_errno f p \<noteq> None"
  by (simp add: errno_None_iff)

lemma errno_persists:
  assumes "mkfifo_errno g q \<noteq> None" and "nodes g p = None"
  shows "mkfifo_errno (g\<lparr>nodes := (nodes g)(p \<mapsto> Fifo x)\<rparr>) q \<noteq> None"
  using assms by (auto simp: errno_None_iff split: if_splits)

lemma assign_settled:
  assumes st: "settled s" and a: "assign_mkfifo mkfifo_posix p m s = Some s'"
  shows "settled s'"
proof (cases "mkfifo_errno (fs s) p")
  case None
  then have free: "nodes (fs s) p = None" by (simp add: errno_None_iff)
  from a assign_posix_ok[OF None, of m] have s': "s' = s\<lparr>fs := (fs s)\<lparr>nodes := (nodes (fs s))(p \<mapsto> Fifo (m AND NOT (umask (fs s))))\<rparr>,
       status := Some 0, log := log s @ [(p, m, 0)]\<rparr>" by simp
  show ?thesis
    unfolding settled_def
  proof (intro allI impI)
    fix q m' r assume "(q, m', r) \<in> set (log s')"
    then consider "q = p" | "(q, m', r) \<in> set (log s)" by (auto simp: s')
    then show "mkfifo_errno (fs s') q \<noteq> None"
    proof cases
      case 1
      have "nodes (fs s') p \<noteq> None" by (simp add: s')
      with 1 show ?thesis using errno_exists by blast
    next
      case 2
      with st have "mkfifo_errno (fs s) q \<noteq> None" by (auto simp: settled_def)
      from errno_persists[OF this free] show ?thesis by (simp add: s')
    qed
  qed
next
  case (Some e)
  from a assign_posix_fail[OF Some, of m] have s': "s' = s\<lparr>status := Some (- 1), log := log s @ [(p, m, - 1)]\<rparr>" by simp
  show ?thesis
    using st Some unfolding settled_def by (auto simp: s')
qed

lemma run_settled:
  "settled s \<Longrightarrow> run mkfifo_posix rs s = Some s' \<Longrightarrow> settled s'"
proof (induction rs arbitrary: s)
  case Nil
  then show ?case by simp
next
  case (Cons x rs)
  obtain p m where x: "x = (p, m)" by (cases x)
  from Cons.prems(2) x obtain s1 where
    s1: "assign_mkfifo mkfifo_posix p m s = Some s1" and rest: "run mkfifo_posix rs s1 = Some s'"
    by (auto split: option.splits)
  from Cons.IH[OF assign_settled[OF Cons.prems(1) s1] rest] show ?case .
qed

lemma settled_init: "settled (init_frame f)"
  by (simp add: settled_def init_frame_def)

lemma statuses_init: "statuses (init_frame f) = []"
  by (simp add: statuses_def init_frame_def)

lemma run_all_fail:
  "\<forall>p \<in> fst ` set rs. mkfifo_errno (fs s) p \<noteq> None \<Longrightarrow>
   \<exists>s'. run mkfifo_posix rs s = Some s' \<and> fs s' = fs s \<and>
     statuses s' = statuses s @ replicate (length rs) (- 1)"
proof (induction rs arbitrary: s)
  case Nil
  then show ?case by simp
next
  case (Cons x rs)
  obtain p m where x: "x = (p, m)" by (cases x)
  from Cons.prems x obtain e where e: "mkfifo_errno (fs s) p = Some e" by auto
  let ?s1 = "s\<lparr>status := Some (- 1), log := log s @ [(p, m, - 1)]\<rparr>"
  have "\<forall>p \<in> fst ` set rs. mkfifo_errno (fs ?s1) p \<noteq> None"
    using Cons.prems by simp
  from Cons.IH[OF this] obtain s' where
    "run mkfifo_posix rs ?s1 = Some s'" "fs s' = fs s"
    "statuses s' = statuses ?s1 @ replicate (length rs) (- 1)"
    by auto
  then show ?case
    using x assign_posix_fail[OF e, of m]
    by (simp add: statuses_def replicate_append_same)
qed

lemma assign_served:
  assumes g: "grown f s" and sv: "served f s"
    and new: "p \<notin> fst ` set (log s)" "dirname p \<notin> fst ` set (log s)"
    and a: "assign_mkfifo mkfifo_posix p m s = Some s'"
  shows "served f s'"
proof -
  from new created_subset[of s] have nc: "p \<notin> created s" "dirname p \<notin> created s"
    by auto
  with g have "nodes (fs s) p = nodes f p" "nodes (fs s) (dirname p) = nodes f (dirname p)"
      "readonly (fs s) = readonly f"
    by (simp_all add: grown_def)
  then have same: "mkfifo_errno (fs s) p = mkfifo_errno f p"
    by (simp add: mkfifo_errno_def split: option.splits node.splits)
  show ?thesis
  proof (cases "mkfifo_errno (fs s) p")
    case None
    from a assign_posix_ok[OF None, of m] have "log s' = log s @ [(p, m, 0)]" by auto
    with sv show ?thesis by (auto simp: served_def)
  next
    case (Some e)
    from a assign_posix_fail[OF Some, of m] have "log s' = log s @ [(p, m, - 1)]" by auto
    moreover have "mkfifo_errno f p = Some e" unfolding same[symmetric] by (rule Some)
    ultimately show ?thesis using sv by (auto simp: served_def)
  qed
qed

lemma run_served:
  "grown f s \<Longrightarrow> served f s \<Longrightarrow> independent rs \<Longrightarrow>
   \<forall>p \<in> fst ` set rs. p \<notin> fst ` set (log s) \<and> dirname p \<notin> fst ` set (log s) \<Longrightarrow>
   run mkfifo_posix rs s = Some s' \<Longrightarrow> served f s'"
proof (induction rs arbitrary: s)
  case Nil
  then show ?case by simp
next
  case (Cons x rs)
  obtain p m where x: "x = (p, m)" by (cases x)
  from Cons.prems(5) x obtain s1 where
    s1: "assign_mkfifo mkfifo_posix p m s = Some s1" and rest: "run mkfifo_posix rs s1 = Some s'"
    by (auto split: option.splits)
  from Cons.prems(4) x have new: "p \<notin> fst ` set (log s)" "dirname p \<notin> fst ` set (log s)"
    by auto
  have g1: "grown f s1" by (rule assign_grown[OF Cons.prems(1) s1])
  have sv1: "served f s1" by (rule assign_served[OF Cons.prems(1,2) new s1])
  have ind: "independent rs" using Cons.prems(3) by (auto simp: independent_def)
  from assign_SomeD[OF s1] have l1: "fst ` set (log s1) = insert p (fst ` set (log s))"
    by auto
  have "\<forall>q \<in> fst ` set rs. q \<notin> fst ` set (log s1) \<and> dirname q \<notin> fst ` set (log s1)"
    unfolding l1 using Cons.prems(3,4) x by (auto simp: independent_def)
  from Cons.IH[OF g1 sv1 ind this rest] show ?case .
qed

lemma served_init: "served f (init_frame f)"
  by (simp add: served_def init_frame_def)

lemma independent_batch: "independent batch"
  by (simp add: independent_def batch_def dirname_def)

section \<open>The entry point on the modelled filesystem\<close>

lemma fs_init: "fs (init_frame f) = f"
  by (simp add: init_frame_def)

lemma issued_mem_iff: "(p, m) \<in> set (issued s) \<longleftrightarrow> (\<exists>r. (p, m, r) \<in> set (log s))"
  by (force simp: issued_def)

lemma body_posix_facts:
  "\<exists>s1. createfifonative_body mkfifo_posix (init_frame f) = Some s1 \<and>
     issued s1 = batch \<and> grown f s1 \<and> settled s1 \<and> served f s1"
proof -
  obtain s1 where s1: "run mkfifo_posix batch (init_frame f) = Some s1"
    using run_returns[OF mkfifo_posix_returns] by blast
  have b: "createfifonative_body mkfifo_posix (init_frame f) = Some s1"
    using s1 by (simp only: body_run)
  have i: "issued s1 = batch"
    using run_issued[OF s1] by (simp add: issued_init)
  have g: "grown f s1"
    by (rule run_grown[OF grown_init s1])
  have st: "settled s1"
    by (rule run_settled[OF settled_init s1])
  have "\<forall>p \<in> fst ` set batch.
      p \<notin> fst ` set (log (init_frame f)) \<and> dirname p \<notin> fst ` set (log (init_frame f))"
    by (simp add: log_init)
  from run_served[OF grown_init served_init independent_batch this s1]
  have sv: "served f s1" .
  from b i g st sv show ?thesis by (intro exI[of _ s1] conjI)
qed

lemma rerun_facts:
  assumes s1: "createfifonative_body mkfifo_posix (init_frame f) = Some s1"
  shows "\<exists>s2. rerun f = Some s2 \<and> fs s2 = fs s1 \<and>
     statuses s2 = replicate (length batch) (- 1)"
proof -
  from body_posix_facts[of f] s1 have st: "settled s1" and i: "issued s1 = batch"
    by auto
  have "\<forall>p \<in> fst ` set batch. mkfifo_errno (fs (init_frame (fs s1))) p \<noteq> None"
  proof
    fix p assume "p \<in> fst ` set batch"
    then obtain m where "(p, m) \<in> set (issued s1)" using i by auto
    then obtain r where "(p, m, r) \<in> set (log s1)" by (auto simp: issued_mem_iff)
    with st show "mkfifo_errno (fs (init_frame (fs s1))) p \<noteq> None"
      by (auto simp: settled_def fs_init)
  qed
  from run_all_fail[OF this] obtain s2 where
    s2: "run mkfifo_posix batch (init_frame (fs s1)) = Some s2" and
    f2: "fs s2 = fs s1" and
    r2: "statuses s2 = replicate (length batch) (- 1)"
    by (auto simp: fs_init statuses_init)
  have "rerun f = Some s2"
    using s1 s2 by (simp add: rerun_def createfifonative_def body_run)
  with f2 r2 show ?thesis by (intro exI[of _ s2] conjI)
qed

lemma creatable_created:
  assumes s1: "createfifonative_body mkfifo_posix (init_frame f) = Some s1"
    and mem: "(p, m) \<in> set batch" and free: "mkfifo_errno f p = None"
  shows "(p, m, 0) \<in> set (log s1)"
proof -
  from body_posix_facts[of f] s1 have sv: "served f s1" and i: "issued s1 = batch"
    by auto
  from mem i have "(p, m) \<in> set (issued s1)" by simp
  then obtain r where r: "(p, m, r) \<in> set (log s1)"
    unfolding issued_mem_iff by blast
  with sv free have "r = 0" by (auto simp: served_def)
  with r show ?thesis by simp
qed

lemma snd_batch: "(p, m) \<in> set batch \<Longrightarrow> m = 438"
  by (auto simp: batch_def)

lemma foo_mem: "(''/storage/emulated/legacy/DCIM/foo.jpg'', 438) \<in> set batch"
  by (simp add: batch_def)

lemma pipe0_mem: "(''/data/data/info.guardianproject.securecamtest/pipe0'', 438) \<in> set batch"
  by (simp add: batch_def)

lemma dirname_foo:
  "dirname ''/storage/emulated/legacy/DCIM/foo.jpg'' = ''/storage/emulated/legacy/DCIM''"
  by (simp add: dirname_def)

lemma dirname_pipe0:
  "dirname ''/data/data/info.guardianproject.securecamtest/pipe0'' =
     ''/data/data/info.guardianproject.securecamtest''"
  by (simp add: dirname_def)

lemma errno_fresh_pipe0:
  "mkfifo_errno fresh_fs ''/data/data/info.guardianproject.securecamtest/pipe0'' = None"
  by (simp add: mkfifo_errno_def dirname_pipe0 fresh_fs_def)

lemma errno_fresh_foo:
  "mkfifo_errno fresh_fs ''/storage/emulated/legacy/DCIM/foo.jpg'' = None"
  by (simp add: mkfifo_errno_def dirname_foo fresh_fs_def)

lemma errno_photo_foo:
  "mkfifo_errno photo_fs ''/storage/emulated/legacy/DCIM/foo.jpg'' = Some EEXIST"
  by (simp add: mkfifo_errno_def dirname_foo photo_fs_def fresh_fs_def)

lemma errno_data_foo:
  "mkfifo_errno data_fs ''/storage/emulated/legacy/DCIM/foo.jpg'' = Some ENOENT"
  by (simp add: mkfifo_errno_def dirname_foo data_fs_def)

lemma errno_empty: "mkfifo_errno empty_fs p = Some ENOENT"
  by (simp add: mkfifo_errno_def empty_fs_def)

lemma statuses_fresh:
  "map_option statuses (createfifonative_body mkfifo_posix (init_frame fresh_fs)) =
     Some [0, 0, 0, 0, 0, 0, 0, 0, 0, 0, 0]"
  by code_simp

lemma statuses_photo:
  "map_option statuses (createfifonative_body mkfifo_posix (init_frame photo_fs)) =
     Some [- 1, 0, 0, 0, 0, 0, 0, 0, 0, 0, 0]"
  by code_simp

lemma statuses_data:
  "map_option statuses (createfifonative_body mkfifo_posix (init_frame data_fs)) =
     Some [- 1, 0, 0, 0, 0, 0, 0, 0, 0, 0, 0]"
  by code_simp

lemma statuses_empty:
  "map_option statuses (createfifonative_body mkfifo_posix (init_frame empty_fs)) =
     Some [- 1, - 1, - 1, - 1, - 1, - 1, - 1, - 1, - 1, - 1, - 1]"
proof -
  have "\<forall>p \<in> fst ` set batch. mkfifo_errno (fs (init_frame empty_fs)) p \<noteq> None"
    by (simp add: fs_init errno_empty)
  from run_all_fail[OF this] show ?thesis
    by (auto simp: body_run statuses_init length_batch numeral_eq_Suc)
qed

lemma statuses_rerun_fresh:
  "map_option statuses (rerun fresh_fs) =
     Some [- 1, - 1, - 1, - 1, - 1, - 1, - 1, - 1, - 1, - 1, - 1]"
proof -
  obtain s1 where s1: "createfifonative_body mkfifo_posix (init_frame fresh_fs) = Some s1"
    using body_posix_facts[of fresh_fs] by blast
  from rerun_facts[OF s1] show ?thesis
    by (auto simp: length_batch numeral_eq_Suc)
qed

lemma fs_rerun:
  "map_option fs (rerun f) = createfifonative mkfifo_posix f"
proof -
  obtain s1 where s1: "createfifonative_body mkfifo_posix (init_frame f) = Some s1"
    using body_posix_facts[of f] by blast
  from rerun_facts[OF s1] entry_of_body[OF s1] show ?thesis
    by auto
qed

section \<open>What the caller gets back\<close>

lemma run_fs_only:
  assumes same: "\<forall>f p m. map_option snd (mkfifo f p m) = map_option snd (mkfifo' f p m)"
  shows "fs s = fs t \<Longrightarrow> map_option fs (run mkfifo rs s) = map_option fs (run mkfifo' rs t)"
proof (induction rs arbitrary: s t)
  case Nil
  then show ?case by simp
next
  case (Cons x rs)
  obtain p m where x: "x = (p, m)" by (cases x)
  from same have eq: "map_option snd (mkfifo (fs s) p m) = map_option snd (mkfifo' (fs t) p m)"
    using Cons.prems by simp
  show ?case
  proof (cases "mkfifo (fs s) p m")
    case None
    with eq have "mkfifo' (fs t) p m = None" by simp
    with None x show ?thesis by (simp add: assign_mkfifo_def)
  next
    case (Some a)
    obtain r g where a: "a = (r, g)" by (cases a)
    from eq Some a obtain r' where r': "mkfifo' (fs t) p m = Some (r', g)"
      by (cases "mkfifo' (fs t) p m") auto
    let ?s1 = "s\<lparr>fs := g, status := Some r, log := log s @ [(p, m, r)]\<rparr>"
    let ?t1 = "t\<lparr>fs := g, status := Some r', log := log t @ [(p, m, r')]\<rparr>"
    have "fs ?s1 = fs ?t1" by simp
    from Cons.IH[OF this] Some a r' x show ?thesis
      by (simp add: assign_mkfifo_def)
  qed
qed

text \<open>
  Claim C4, amended. No status is surfaced. Each call's status goes to the local variable
  \<^verbatim>\<open>status\<close>, which the next assignment overwrites and the return drops; the function
  returns nothing and writes no log. What the entry point leaves to its caller is the
  filesystem alone, and it is the same for any two behaviours of the creation call that
  do the same to the filesystem, whatever statuses they report.
\<close>

theorem statuses_are_dropped:
  assumes "\<forall>f p m. map_option snd (mkfifo f p m) = map_option snd (mkfifo' f p m)"
  shows "createfifonative mkfifo f = createfifonative mkfifo' f"
  using run_fs_only[OF assms, of "init_frame f" "init_frame f" batch]
  by (simp add: createfifonative_def body_run)

theorem statuses_are_dropped_witness:
  "(\<forall>f p m. map_option snd (mkfifo_ok f p m) = map_option snd (mkfifo_fail f p m)) \<and>
   createfifonative mkfifo_ok () = createfifonative mkfifo_fail ()"
proof -
  have h: "\<forall>f p m. map_option snd (mkfifo_ok f p m) = map_option snd (mkfifo_fail f p m)"
    by (simp add: mkfifo_ok_def mkfifo_fail_def)
  from statuses_are_dropped[OF h, of "()"] h show ?thesis by (intro conjI)
qed

text \<open>
  Claim C4 as stated fails: an invocation on the fresh filesystem, where every call
  succeeds, and a second invocation on what it left, where every call fails, leave their
  caller with the very same thing.
\<close>

theorem statuses_are_dropped_counterexample:
  "createfifonative mkfifo_posix fresh_fs = map_option fs (rerun fresh_fs) \<and>
   map_option statuses (createfifonative_body mkfifo_posix (init_frame fresh_fs)) =
     Some [0, 0, 0, 0, 0, 0, 0, 0, 0, 0, 0] \<and>
   map_option statuses (rerun fresh_fs) =
     Some [- 1, - 1, - 1, - 1, - 1, - 1, - 1, - 1, - 1, - 1, - 1]"
  using fs_rerun[of fresh_fs, symmetric] statuses_fresh statuses_rerun_fresh
  by (intro conjI)

section \<open>Effects on the filesystem\<close>

text \<open>
  Claim C5. The only state the entry point changes is the filesystem, and only by creating
  pipe nodes for the requests whose call returned 0: the umask and the read-only flag
  are as before, every path not reported as created holds what it held, every created
  path was free and now holds a pipe; in particular a regular file at a requested path
  keeps its mode and its contents.
\<close>

theorem only_created_pipes_change_filesystem:
  "\<exists>s'. createfifonative_body mkfifo_posix (init_frame f) = Some s' \<and>
     createfifonative mkfifo_posix f = Some (fs s') \<and>
     umask (fs s') = umask f \<and> readonly (fs s') = readonly f \<and>
     (\<forall>p. p \<notin> created s' \<longrightarrow> nodes (fs s') p = nodes f p) \<and>
     (\<forall>p \<in> created s'. nodes f p = None \<and> (\<exists>m. nodes (fs s') p = Some (Fifo m))) \<and>
     (\<forall>p m c. nodes f p = Some (Regular m c) \<longrightarrow> nodes (fs s') p = Some (Regular m c))"
proof -
  obtain s' where b: "createfifonative_body mkfifo_posix (init_frame f) = Some s'"
    and g: "grown f s'"
    using body_posix_facts[of f] by blast
  have e: "createfifonative mkfifo_posix f = Some (fs s')"
    by (rule entry_of_body[OF b])
  have u: "umask (fs s') = umask f" and r: "readonly (fs s') = readonly f"
    using g by (simp_all add: grown_def)
  have same: "\<forall>p. p \<notin> created s' \<longrightarrow> nodes (fs s') p = nodes f p"
    using g by (simp add: grown_def)
  have new: "\<forall>p \<in> created s'. nodes f p = None \<and> (\<exists>m. nodes (fs s') p = Some (Fifo m))"
    using g by (auto simp: grown_def created_def)
  have reg: "\<forall>p m c. nodes f p = Some (Regular m c) \<longrightarrow> nodes (fs s') p = Some (Regular m c)"
  proof (intro allI impI)
    fix p m c assume h: "nodes f p = Some (Regular m c)"
    with new have "p \<notin> created s'" by auto
    with same h show "nodes (fs s') p = Some (Regular m c)" by simp
  qed
  from b e u r same new reg show ?thesis
    by (intro exI[of _ s'] conjI)
qed

text \<open>
  The witness: the picture stored at the first path of the batch is still there after the
  run, and that path is not among the created ones.
\<close>

theorem only_created_pipes_change_filesystem_witness:
  "nodes photo_fs ''/storage/emulated/legacy/DCIM/foo.jpg'' = Some (Regular 416 ''JFIF'') \<and>
   (\<exists>s'. createfifonative_body mkfifo_posix (init_frame photo_fs) = Some s' \<and>
      ''/storage/emulated/legacy/DCIM/foo.jpg'' \<notin> created s' \<and>
      nodes (fs s') ''/storage/emulated/legacy/DCIM/foo.jpg'' = Some (Regular 416 ''JFIF''))"
proof -
  have h: "nodes photo_fs ''/storage/emulated/legacy/DCIM/foo.jpg'' = Some (Regular 416 ''JFIF'')"
    by (simp add: photo_fs_def)
  from only_created_pipes_change_filesystem[of photo_fs] obtain s' where
    b: "createfifonative_body mkfifo_posix (init_frame photo_fs) = Some s'" and
    new: "\<forall>p \<in> created s'. nodes photo_fs p = None \<and> (\<exists>m. nodes (fs s') p = Some (Fifo m))" and
    reg: "\<forall>p m c. nodes photo_fs p = Some (Regular m c) \<longrightarrow> nodes (fs s') p = Some (Regular m c)"
    by blast
  from new h have n: "''/storage/emulated/legacy/DCIM/foo.jpg'' \<notin> created s'" by auto
  from reg h have k: "nodes (fs s') ''/storage/emulated/legacy/DCIM/foo.jpg'' = Some (Regular 416 ''JFIF'')"
    by blast
  from b n k have "\<exists>s'. createfifonative_body mkfifo_posix (init_frame photo_fs) = Some s' \<and>
      ''/storage/emulated/legacy/DCIM/foo.jpg'' \<notin> created s' \<and>
      nodes (fs s') ''/storage/emulated/legacy/DCIM/foo.jpg'' = Some (Regular 416 ''JFIF'')"
    by (intro exI[of _ s'] conjI)
  with h show ?thesis by (intro conjI)
qed

text \<open>
  Claim C7. Where the environment applies no umask, every request whose call returned 0
  has left a pipe whose mode bits are exactly the requested ones, the mask of read and
  write for owner, group and other.
\<close>

theorem created_pipe_has_requested_mode:
  assumes "umask f = 0"
    and "createfifonative_body mkfifo_posix (init_frame f) = Some s'"
    and "(p, m, 0) \<in> set (log s')"
  shows "nodes (fs s') p = Some (Fifo m) \<and>
     m = S_IWUSR OR S_IRUSR OR S_IRGRP OR S_IWGRP OR S_IROTH OR S_IWOTH"
proof -
  from body_posix_facts[of f] assms(2) have g: "grown f s'" and i: "issued s' = batch"
    by auto
  from g assms(3) have "nodes (fs s') p = Some (Fifo (m AND NOT (umask f)))"
    by (simp add: grown_def)
  with assms(1) have n: "nodes (fs s') p = Some (Fifo m)" by simp
  from assms(3) have "(p, m) \<in> set (issued s')"
    unfolding issued_mem_iff by blast
  with i have "m = 438" using snd_batch by simp
  then have "m = S_IWUSR OR S_IRUSR OR S_IRGRP OR S_IWGRP OR S_IROTH OR S_IWOTH"
    by (simp only: mode_value)
  with n show ?thesis by (intro conjI)
qed

theorem created_pipe_has_requested_mode_witness:
  "umask fresh_fs = 0 \<and>
   (\<exists>s'. createfifonative_body mkfifo_posix (init_frame fresh_fs) = Some s' \<and>
      (''/data/data/info.guardianproject.securecamtest/pipe0'', 438, 0) \<in> set (log s') \<and>
      nodes (fs s') ''/data/data/info.guardianproject.securecamtest/pipe0'' = Some (Fifo 438) \<and>
      (438 :: mode_t) = S_IWUSR OR S_IRUSR OR S_IRGRP OR S_IWGRP OR S_IROTH OR S_IWOTH)"
proof -
  have u: "umask fresh_fs = 0" by (simp add: fresh_fs_def)
  obtain s' where b: "createfifonative_body mkfifo_posix (init_frame fresh_fs) = Some s'"
    using body_posix_facts[of fresh_fs] by blast
  have l: "(''/data/data/info.guardianproject.securecamtest/pipe0'', 438, 0) \<in> set (log s')"
    by (rule creatable_created[OF b pipe0_mem errno_fresh_pipe0])
  from created_pipe_has_requested_mode[OF u b l] b l
  have "\<exists>s'. createfifonative_body mkfifo_posix (init_frame fresh_fs) = Some s' \<and>
      (''/data/data/info.guardianproject.securecamtest/pipe0'', 438, 0) \<in> set (log s') \<and>
      nodes (fs s') ''/data/data/info.guardianproject.securecamtest/pipe0'' = Some (Fifo 438) \<and>
      (438 :: mode_t) = S_IWUSR OR S_IRUSR OR S_IRGRP OR S_IWGRP OR S_IROTH OR S_IWOTH"
    by (intro exI[of _ s'] conjI) simp_all
  with u show ?thesis by (intro conjI)
qed

section \<open>Repeated invocation\<close>

lemma replicate_11: "replicate 11 x = [x, x, x, x, x, x, x, x, x, x, x]"
  by (simp add: numeral_eq_Suc)

text \<open>
  Claim C3, amended. Invoking the entry point twice is harmless, and the source knows no
  outcome \<open>AlreadyExists\<close>. In the first invocation every call on a path that is free and
  creatable returns 0; in the second invocation every call returns -1, the status of
  any failure, and the filesystem stays as the first invocation left it.
\<close>

theorem second_invocation_fails_everywhere:
  "\<exists>s1 s2. createfifonative_body mkfifo_posix (init_frame f) = Some s1 \<and>
     rerun f = Some s2 \<and>
     (\<forall>p m r. (p, m, r) \<in> set (log s1) \<longrightarrow> mkfifo_errno f p = None \<longrightarrow> r = 0) \<and>
     statuses s2 = [- 1, - 1, - 1, - 1, - 1, - 1, - 1, - 1, - 1, - 1, - 1] \<and>
     fs s2 = fs s1"
proof -
  obtain s1 where b: "createfifonative_body mkfifo_posix (init_frame f) = Some s1"
    and sv: "served f s1"
    using body_posix_facts[of f] by blast
  from rerun_facts[OF b] obtain s2 where
    r: "rerun f = Some s2" and f2: "fs s2 = fs s1" and
    st: "statuses s2 = replicate (length batch) (- 1)"
    by blast
  from st have st': "statuses s2 = [- 1, - 1, - 1, - 1, - 1, - 1, - 1, - 1, - 1, - 1, - 1]"
    by (simp only: length_batch replicate_11)
  from sv have c: "\<forall>p m r. (p, m, r) \<in> set (log s1) \<longrightarrow> mkfifo_errno f p = None \<longrightarrow> r = 0"
    by (simp add: served_def)
  from b r c st' f2 show ?thesis
    by (intro exI[of _ s1] exI[of _ s2] conjI)
qed

text \<open>
  The witness: on the fresh filesystem the first path of the batch is creatable, its call
  returns 0 in the first invocation, and the second invocation fails throughout.
\<close>

theorem second_invocation_fails_everywhere_witness:
  "mkfifo_errno fresh_fs ''/storage/emulated/legacy/DCIM/foo.jpg'' = None \<and>
   (\<exists>s1 s2. createfifonative_body mkfifo_posix (init_frame fresh_fs) = Some s1 \<and>
     rerun fresh_fs = Some s2 \<and>
     (''/storage/emulated/legacy/DCIM/foo.jpg'', 438, 0) \<in> set (log s1) \<and>
     statuses s2 = [- 1, - 1, - 1, - 1, - 1, - 1, - 1, - 1, - 1, - 1, - 1] \<and>
     fs s2 = fs s1)"
proof -
  from second_invocation_fails_everywhere[of fresh_fs] obtain s1 s2 where
    b: "createfifonative_body mkfifo_posix (init_frame fresh_fs) = Some s1" and
    r: "rerun fresh_fs = Some s2" and
    st: "statuses s2 = [- 1, - 1, - 1, - 1, - 1, - 1, - 1, - 1, - 1, - 1, - 1]" and
    f2: "fs s2 = fs s1"
    by blast
  have l: "(''/storage/emulated/legacy/DCIM/foo.jpg'', 438, 0) \<in> set (log s1)"
    by (rule creatable_created[OF b foo_mem errno_fresh_foo])
  from b r l st f2 have "\<exists>s1 s2. createfifonative_body mkfifo_posix (init_frame fresh_fs) = Some s1 \<and>
     rerun fresh_fs = Some s2 \<and>
     (''/storage/emulated/legacy/DCIM/foo.jpg'', 438, 0) \<in> set (log s1) \<and>
     statuses s2 = [- 1, - 1, - 1, - 1, - 1, - 1, - 1, - 1, - 1, - 1, - 1] \<and>
     fs s2 = fs s1"
    by (intro exI[of _ s1] exI[of _ s2] conjI)
  with errno_fresh_foo show ?thesis by (intro conjI)
qed

text \<open>
  Claim C3 as stated fails: after a first invocation in which every call succeeds, the
  second invocation gets from every call the status of a failure, the same statuses
  as an invocation on a filesystem where nothing can be created.
\<close>

theorem second_invocation_counterexample:
  "map_option statuses (createfifonative_body mkfifo_posix (init_frame fresh_fs)) =
     Some [0, 0, 0, 0, 0, 0, 0, 0, 0, 0, 0] \<and>
   map_option statuses (rerun fresh_fs) =
     Some [- 1, - 1, - 1, - 1, - 1, - 1, - 1, - 1, - 1, - 1, - 1] \<and>
   map_option statuses (createfifonative_body mkfifo_posix (init_frame empty_fs)) =
     Some [- 1, - 1, - 1, - 1, - 1, - 1, - 1, - 1, - 1, - 1, - 1]"
  using statuses_fresh statuses_rerun_fresh statuses_empty
  by (intro conjI)

section \<open>Failures\<close>

lemma run_log_prefix:
  "run mkfifo rs s = Some s' \<Longrightarrow> \<exists>ys. log s' = log s @ ys"
proof (induction rs arbitrary: s)
  case Nil
  then show ?case by simp
next
  case (Cons x rs)
  obtain p m where x: "x = (p, m)" by (cases x)
  from Cons.prems x obtain s1 where
    s1: "assign_mkfifo mkfifo p m s = Some s1" and rest: "run mkfifo rs s1 = Some s'"
    by (auto split: option.splits)
  from assign_SomeD[OF s1] Cons.IH[OF rest] show ?case by auto
qed

text \<open>
  Claim C6, amended. The source has no outcome \<open>Failed(reason)\<close> and does not classify a
  failure. At every position of the batch, a creation attempt that fails, whatever its
  cause (the path is taken, the containing directory is missing or is no directory,
  the permission is denied, the filesystem is read-only), gives the entry point the one
  status -1 and changes nothing in the filesystem; the run goes on and ends with -1 as
  the status of that request.
\<close>

theorem failed_attempt_reports_minus_one:
  assumes "i < length batch"
    and "run mkfifo_posix (take i batch) (init_frame f) = Some s"
    and "mkfifo_errno (fs s) (fst (batch ! i)) = Some e"
  shows "\<exists>s' s''. run mkfifo_posix (take (Suc i) batch) (init_frame f) = Some s' \<and>
     status s' = Some (- 1) \<and>
     last (log s') = (fst (batch ! i), snd (batch ! i), - 1) \<and>
     fs s' = fs s \<and>
     createfifonative_body mkfifo_posix (init_frame f) = Some s'' \<and>
     statuses s'' ! i = - 1"
proof -
  let ?p = "fst (batch ! i)" and ?m = "snd (batch ! i)"
  let ?s' = "s\<lparr>status := Some (- 1), log := log s @ [(?p, ?m, - 1)]\<rparr>"
  have tk: "take (Suc i) batch = take i batch @ [(?p, ?m)]"
    using assms(1) by (simp add: take_Suc_conv_app_nth)
  have a: "assign_mkfifo mkfifo_posix ?p ?m s = Some ?s'"
    by (rule assign_posix_fail[OF assms(3)])
  have one: "run mkfifo_posix [(?p, ?m)] s = Some ?s'"
    by (simp only: run.simps a option.case)
  have s': "run mkfifo_posix (take (Suc i) batch) (init_frame f) = Some ?s'"
    by (simp only: tk run_append assms(2) option.case one)
  have len: "length (log s) = i"
    using run_log_length[OF assms(2)] assms(1) by (simp add: log_init)
  obtain s'' where s'': "run mkfifo_posix (drop (Suc i) batch) ?s' = Some s''"
    using run_returns[OF mkfifo_posix_returns] by blast
  have "run mkfifo_posix (take (Suc i) batch @ drop (Suc i) batch) (init_frame f) = Some s''"
    using s' s'' by (simp only: run_append option.case)
  then have whole: "createfifonative_body mkfifo_posix (init_frame f) = Some s''"
    by (simp add: body_run)
  from run_log_prefix[OF s''] obtain ys where "log s'' = (log s @ [(?p, ?m, - 1)]) @ ys"
    by auto
  then have "statuses s'' ! i = - 1"
    using len by (simp add: statuses_def nth_append)
  with s' whole show ?thesis
    by (intro exI[of _ ?s'] exI[of _ s''] conjI) simp_all
qed

text \<open>The witness: the first request, on the filesystem where a picture holds its path.\<close>

theorem failed_attempt_reports_minus_one_witness:
  "0 < length batch \<and>
   run mkfifo_posix (take 0 batch) (init_frame photo_fs) = Some (init_frame photo_fs) \<and>
   mkfifo_errno (fs (init_frame photo_fs)) (fst (batch ! 0)) = Some EEXIST \<and>
   (\<exists>s' s''. run mkfifo_posix (take (Suc 0) batch) (init_frame photo_fs) = Some s' \<and>
     status s' = Some (- 1) \<and>
     last (log s') = (fst (batch ! 0), snd (batch ! 0), - 1) \<and>
     fs s' = fs (init_frame photo_fs) \<and>
     createfifonative_body mkfifo_posix (init_frame photo_fs) = Some s'' \<and>
     statuses s'' ! 0 = - 1)"
proof -
  have pos: "0 < length batch" by (simp add: length_batch)
  have r0: "run mkfifo_posix (take 0 batch) (init_frame photo_fs) = Some (init_frame photo_fs)"
    by simp
  have e: "mkfifo_errno (fs (init_frame photo_fs)) (fst (batch ! 0)) = Some EEXIST"
    by (simp add: fs_init batch_def errno_photo_foo)
  from failed_attempt_reports_minus_one[OF pos r0 e] pos r0 e show ?thesis
    by (intro conjI)
qed

text \<open>
  Claim C6 as stated fails: a picture in the way of the first path and a missing
  directory of the first path are two causes of failure, and the entry point gets the
  same statuses in both runs.
\<close>

theorem failure_cause_counterexample:
  "mkfifo_errno photo_fs ''/storage/emulated/legacy/DCIM/foo.jpg'' = Some EEXIST \<and>
   mkfifo_errno data_fs ''/storage/emulated/legacy/DCIM/foo.jpg'' = Some ENOENT \<and>
   map_option statuses (createfifonative_body mkfifo_posix (init_frame photo_fs)) =
     Some [- 1, 0, 0, 0, 0, 0, 0, 0, 0, 0, 0] \<and>
   map_option statuses (createfifonative_body mkfifo_posix (init_frame data_fs)) =
     Some [- 1, 0, 0, 0, 0, 0, 0, 0, 0, 0, 0]"
  using errno_photo_foo errno_data_foo statuses_photo statuses_data
  by (intro conjI)

section \<open>What reaches the system call\<close>

lemma with_transcript_init: "with_transcript (init_frame f) = init_frame (f, [])"
  by (simp add: with_transcript_def init_frame_def)

lemma assign_recording:
  "assign_mkfifo (recording mkfifo) p m (with_transcript s) =
     map_option with_transcript (assign_mkfifo mkfifo p m s)"
  by (simp add: assign_mkfifo_def recording_def with_transcript_def split: option.splits)

lemma run_recording:
  "run (recording mkfifo) rs (with_transcript s) = map_option with_transcript (run mkfifo rs s)"
proof (induction rs arbitrary: s)
  case Nil
  show ?case by simp
next
  case (Cons x rs)
  obtain p m where x: "x = (p, m)" by (cases x)
  show ?case
  proof (cases "assign_mkfifo mkfifo p m s")
    case None
    then show ?thesis using assign_recording[of mkfifo p m s] x by simp
  next
    case (Some s1)
    then show ?thesis using assign_recording[of mkfifo p m s] x Cons.IH[of s1] by simp
  qed
qed

text \<open>
  The log of a frame is the transcript: what the body logs is what the system call has
  received and answered.
\<close>

lemma entry_recording:
  "createfifonative (recording mkfifo) (f, []) =
     map_option (\<lambda>s. (fs s, log s)) (createfifonative_body mkfifo (init_frame f))"
proof -
  have "run (recording mkfifo) batch (init_frame (f, [])) =
      map_option with_transcript (run mkfifo batch (init_frame f))"
    using run_recording[of mkfifo batch "init_frame f"] by (simp only: with_transcript_init)
  then show ?thesis
    by (simp add: createfifonative_def body_run option.map_comp comp_def with_transcript_def)
qed

lemma calls_of_log: "calls_of (log s) = issued s"
  by (simp add: calls_of_def issued_def)

lemma run_None_iff:
  "run mkfifo rs s = None \<longleftrightarrow>
     (\<exists>k<length rs. \<exists>t. run mkfifo (take k rs) s = Some t \<and>
        mkfifo (fs t) (fst (rs ! k)) (snd (rs ! k)) = None)"
proof (induction rs arbitrary: s)
  case Nil
  show ?case by simp
next
  case (Cons x rs)
  obtain p m where x: "x = (p, m)" by (cases x)
  show ?case
  proof (cases "mkfifo (fs s) p m")
    case None
    then have "run mkfifo (x # rs) s = None"
      using x by (simp add: assign_mkfifo_def)
    moreover have "run mkfifo (take 0 (x # rs)) s = Some s \<and>
        mkfifo (fs s) (fst ((x # rs) ! 0)) (snd ((x # rs) ! 0)) = None"
      using None x by simp
    then have "\<exists>k<length (x # rs). \<exists>t. run mkfifo (take k (x # rs)) s = Some t \<and>
        mkfifo (fs t) (fst ((x # rs) ! k)) (snd ((x # rs) ! k)) = None"
      by (intro exI[of _ 0] exI[of _ s] conjI) simp_all
    ultimately show ?thesis by simp
  next
    case (Some a)
    obtain r g where a: "a = (r, g)" by (cases a)
    define s1 where "s1 = s\<lparr>fs := g, status := Some r, log := log s @ [(p, m, r)]\<rparr>"
    have a1: "assign_mkfifo mkfifo p m s = Some s1"
      using Some a by (simp add: assign_mkfifo_def s1_def)
    have step: "\<And>ys. run mkfifo ((p, m) # ys) s = run mkfifo ys s1"
      using a1 by simp
    have "(\<exists>k<length (x # rs). \<exists>t. run mkfifo (take k (x # rs)) s = Some t \<and>
        mkfifo (fs t) (fst ((x # rs) ! k)) (snd ((x # rs) ! k)) = None) \<longleftrightarrow>
      (\<exists>k<length rs. \<exists>t. run mkfifo (take k rs) s1 = Some t \<and>
        mkfifo (fs t) (fst (rs ! k)) (snd (rs ! k)) = None)"
      using Some x by (simp add: Ex_less_Suc2 step del: run.simps(2))
    with Cons.IH[of s1] step[of rs] x show ?thesis by simp
  qed
qed


lemma recording_returns: "returns mkfifo \<Longrightarrow> returns (recording mkfifo)"
  by (auto simp: returns_def recording_def split: option.splits)

lemma final_status:
  assumes "createfifonative_body mkfifo (init_frame f) = Some s'"
  shows "status s' = Some (snd (snd (last (log s'))))"
proof -
  have "batch = butlast batch @ [(fst (last batch), snd (last batch))]"
    by (simp add: batch_def)
  with assms have "run mkfifo (butlast batch @ [(fst (last batch), snd (last batch))])
      (init_frame f) = Some s'"
    by (simp only: body_run)
  from run_snoc_status[OF this] show ?thesis by auto
qed

lemma entry_transcript:
  assumes "createfifonative_body mkfifo (init_frame f) = Some s'"
  shows "createfifonative (recording mkfifo) (f, []) = Some (fs s', log s')"
    and "calls_of (log s') = batch" and "length (log s') = 11"
proof -
  show "createfifonative (recording mkfifo) (f, []) = Some (fs s', log s')"
    using assms by (simp add: entry_recording)
  have r: "run mkfifo batch (init_frame f) = Some s'"
    using assms by (simp only: body_run)
  show "calls_of (log s') = batch"
    using run_issued[OF r] by (simp add: calls_of_log issued_init)
  show "length (log s') = 11"
    using run_log_length[OF r] by (simp add: log_init length_batch)
qed

text \<open>On the modelled filesystem every call returns, and so does the entry point.\<close>

lemma entry_returns_on_modelled_filesystem:
  "\<exists>f' tr. createfifonative (recording mkfifo_posix) (f, []) = Some (f', tr) \<and>
     calls_of tr = batch"
proof -
  obtain s' where b: "createfifonative_body mkfifo_posix (init_frame f) = Some s'"
    using body_posix_facts[of f] by blast
  from entry_transcript(1,2)[OF b] show ?thesis
    by (intro exI[of _ "fs s'"] exI[of _ "log s'"] conjI)
qed

section \<open>The calls the entry point makes\<close>

text \<open>
  Claim C9. On every invocation in which the creation calls return, the system call
  receives from the entry point exactly eleven creation attempts, on literal arguments
  and in a fixed order: first the path \<^verbatim>\<open>/storage/emulated/legacy/DCIM/foo.jpg\<close>, then
  \<^verbatim>\<open>pipe0\<close> to \<^verbatim>\<open>pipe9\<close> of \<^verbatim>\<open>/data/data/info.guardianproject.securecamtest\<close> in
  ascending order. Every attempt asks for the same mode, 438, which is octal 0666: read
  and write for each of owner, group and other, and no execute bit.
\<close>

theorem entry_issues_eleven_fixed_calls:
  assumes "returns mkfifo"
  shows "\<exists>f' tr. createfifonative (recording mkfifo) (f, []) = Some (f', tr) \<and>
     length tr = 11 \<and>
     calls_of tr =
       (''/storage/emulated/legacy/DCIM/foo.jpg'', 438) #
       map (\<lambda>d. (''/data/data/info.guardianproject.securecamtest/pipe'' @ [d], 438))
         ''0123456789'' \<and>
     (438 :: mode_t) = S_IRUSR OR S_IWUSR OR S_IRGRP OR S_IWGRP OR S_IROTH OR S_IWOTH \<and>
     (438 :: mode_t) = 6 * 8 * 8 + 6 * 8 + 6 \<and>
     (438 :: mode_t) AND (S_IXUSR OR S_IXGRP OR S_IXOTH) = 0"
proof -
  obtain s' where s': "run mkfifo batch (init_frame f) = Some s'"
    using run_returns[OF assms] by blast
  have b: "createfifonative_body mkfifo (init_frame f) = Some s'"
    using s' by (simp only: body_run)
  note t = entry_transcript[OF b]
  have lst: "calls_of (log s') =
       (''/storage/emulated/legacy/DCIM/foo.jpg'', 438) #
       map (\<lambda>d. (''/data/data/info.guardianproject.securecamtest/pipe'' @ [d], 438))
         ''0123456789''"
    by (simp only: t(2) batch_def)
  from t(1) t(3) lst mode_bits show ?thesis
    by (intro exI[of _ "fs s'"] exI[of _ "log s'"] conjI)
qed

theorem entry_issues_eleven_fixed_calls_witness:
  "returns mkfifo_posix \<and>
   (\<exists>f' tr. createfifonative (recording mkfifo_posix) (fresh_fs, []) = Some (f', tr) \<and>
     length tr = 11 \<and>
     calls_of tr =
       (''/storage/emulated/legacy/DCIM/foo.jpg'', 438) #
       map (\<lambda>d. (''/data/data/info.guardianproject.securecamtest/pipe'' @ [d], 438))
         ''0123456789'' \<and>
     (438 :: mode_t) = S_IRUSR OR S_IWUSR OR S_IRGRP OR S_IWGRP OR S_IROTH OR S_IWOTH \<and>
     (438 :: mode_t) = 6 * 8 * 8 + 6 * 8 + 6 \<and>
     (438 :: mode_t) AND (S_IXUSR OR S_IXGRP OR S_IXOTH) = 0)"
  using entry_issues_eleven_fixed_calls[OF mkfifo_posix_returns, of fresh_fs]
    mkfifo_posix_returns
  by (intro conjI)

section \<open>Termination\<close>

text \<open>
  Claim C8. The entry point terminates with its creation calls: it runs the batch
  synchronously, one call after the other, each on the filesystem the calls before it
  left, and suspends nowhere else. It fails to return exactly when one of its eleven
  creation calls fails to return; and when control returns to the caller, the system
  call has received and answered all the eleven requests, in the order of the batch.
\<close>

theorem entry_returns_after_last_request:
  "(createfifonative mkfifo f = None \<longleftrightarrow>
      (\<exists>k<length batch. \<exists>s. run mkfifo (take k batch) (init_frame f) = Some s \<and>
         mkfifo (fs s) (fst (batch ! k)) (snd (batch ! k)) = None)) \<and>
   (\<forall>f'. createfifonative mkfifo f = Some f' \<longrightarrow>
      (\<exists>tr. createfifonative (recording mkfifo) (f, []) = Some (f', tr) \<and>
         length tr = 11 \<and> calls_of tr = batch))"
proof (intro conjI allI impI)
  have "createfifonative mkfifo f = None \<longleftrightarrow> run mkfifo batch (init_frame f) = None"
    by (simp add: createfifonative_def body_run)
  then show "createfifonative mkfifo f = None \<longleftrightarrow>
      (\<exists>k<length batch. \<exists>s. run mkfifo (take k batch) (init_frame f) = Some s \<and>
         mkfifo (fs s) (fst (batch ! k)) (snd (batch ! k)) = None)"
    by (simp only: run_None_iff)
next
  fix f' assume "createfifonative mkfifo f = Some f'"
  then obtain s' where b: "createfifonative_body mkfifo (init_frame f) = Some s'"
    and f': "fs s' = f'"
    by (auto simp: createfifonative_def)
  from entry_transcript[OF b] f'
  show "\<exists>tr. createfifonative (recording mkfifo) (f, []) = Some (f', tr) \<and>
         length tr = 11 \<and> calls_of tr = batch"
    by (intro exI[of _ "log s'"] conjI) simp_all
qed

text \<open>
  The witness: with a system call that never returns the entry point does not return;
  on the modelled filesystem, freshly set up, it returns, all eleven requests answered.
\<close>

theorem entry_returns_after_last_request_witness:
  "createfifonative mkfifo_hang () = None \<and>
   (\<exists>f' tr. createfifonative mkfifo_posix fresh_fs = Some f' \<and>
      createfifonative (recording mkfifo_posix) (fresh_fs, []) = Some (f', tr) \<and>
      length tr = 11 \<and> calls_of tr = batch)"
proof -
  have "0 < length batch \<and> run mkfifo_hang (take 0 batch) (init_frame ()) = Some (init_frame ()) \<and>
      mkfifo_hang (fs (init_frame ())) (fst (batch ! 0)) (snd (batch ! 0)) = None"
    by (simp add: length_batch mkfifo_hang_def)
  then have "\<exists>k<length batch. \<exists>s. run mkfifo_hang (take k batch) (init_frame ()) = Some s \<and>
      mkfifo_hang (fs s) (fst (batch ! k)) (snd (batch ! k)) = None"
    by (intro exI[of _ 0] exI[of _ "init_frame ()"]) simp
  with entry_returns_after_last_request[of mkfifo_hang "()"]
  have hang: "createfifonative mkfifo_hang () = None"
    by (simp only:)
  obtain s1 where "createfifonative_body mkfifo_posix (init_frame fresh_fs) = Some s1"
    using body_posix_facts[of fresh_fs] by blast
  then have e: "createfifonative mkfifo_posix fresh_fs = Some (fs s1)"
    by (rule entry_of_body)
  with entry_returns_after_last_request[of mkfifo_posix fresh_fs]
  obtain tr where "createfifonative (recording mkfifo_posix) (fresh_fs, []) = Some (fs s1, tr)"
      "length tr = 11" "calls_of tr = batch"
    by blast
  with e have "\<exists>f' tr. createfifonative mkfifo_posix fresh_fs = Some f' \<and>
      createfifonative (recording mkfifo_posix) (fresh_fs, []) = Some (f', tr) \<and>
      length tr = 11 \<and> calls_of tr = batch"
    by (intro exI[of _ "fs s1"] exI[of _ tr] conjI)
  with hang show ?thesis by (intro conjI)
qed


section \<open>A failure does not abort the batch\<close>

text \<open>
  Claim C2, amended. At every position \<open>i\<close> of the batch, when the creation attempt of
  request \<open>i\<close> fails, with whatever status \<open>r\<close> the system call answers, the entry point
  assigns that status to its one local variable \<^verbatim>\<open>status\<close> and goes on: the attempts
  of the requests after \<open>i\<close> are all made, in order, and the batch is never aborted.
  The source keeps no result per request: the status stays in the variable until the
  next assignment, and at the return the variable holds the status of the last call.
\<close>

theorem failure_does_not_abort_batch:
  assumes "returns mkfifo" and "i < length batch"
    and "run mkfifo (take i batch) (init_frame f) = Some s"
    and "mkfifo (fs s) (fst (batch ! i)) (snd (batch ! i)) = Some (r, g)"
    and "r \<noteq> 0"
  shows "\<exists>s' s'' tr.
     run mkfifo (take (Suc i) batch) (init_frame f) = Some s' \<and>
     status s' = Some r \<and> fs s' = g \<and>
     createfifonative_body mkfifo (init_frame f) = Some s'' \<and>
     createfifonative (recording mkfifo) (f, []) = Some (fs s'', tr) \<and>
     tr ! i = (fst (batch ! i), snd (batch ! i), r) \<and>
     calls_of tr = batch \<and>
     drop (Suc i) (calls_of tr) = drop (Suc i) batch \<and>
     status s'' = Some (snd (snd (last tr)))"
proof -
  let ?p = "fst (batch ! i)" and ?m = "snd (batch ! i)"
  define s' where "s' = s\<lparr>fs := g, status := Some r, log := log s @ [(?p, ?m, r)]\<rparr>"
  have tk: "take (Suc i) batch = take i batch @ [(?p, ?m)]"
    using assms(2) by (simp add: take_Suc_conv_app_nth)
  have a: "assign_mkfifo mkfifo ?p ?m s = Some s'"
    using assms(4) by (simp add: assign_mkfifo_def s'_def)
  have one: "run mkfifo [(?p, ?m)] s = Some s'"
    by (simp only: run.simps a option.case)
  have r1: "run mkfifo (take (Suc i) batch) (init_frame f) = Some s'"
    by (simp only: tk run_append assms(3) option.case one)
  have st: "status s' = Some r" and fg: "fs s' = g"
    by (simp_all add: s'_def)
  have len: "length (log s) = i"
    using run_log_length[OF assms(3)] assms(2) by (simp add: log_init)
  obtain s'' where r2: "run mkfifo (drop (Suc i) batch) s' = Some s''"
    using run_returns[OF assms(1)] by blast
  have "run mkfifo (take (Suc i) batch @ drop (Suc i) batch) (init_frame f) = Some s''"
    using r1 r2 by (simp only: run_append option.case)
  then have b: "createfifonative_body mkfifo (init_frame f) = Some s''"
    by (simp add: body_run)
  note t = entry_transcript[OF b]
  from run_log_prefix[OF r2] obtain ys where "log s'' = (log s @ [(?p, ?m, r)]) @ ys"
    by (auto simp: s'_def)
  then have nth: "log s'' ! i = (?p, ?m, r)"
    using len by (simp add: nth_append)
  have dr: "drop (Suc i) (calls_of (log s'')) = drop (Suc i) batch"
    by (simp only: t(2))
  from r1 st fg b t(1) nth t(2) dr final_status[OF b] show ?thesis
    by (intro exI[of _ s'] exI[of _ s''] exI[of _ "log s''"] conjI)
qed

text \<open>
  The witness: a picture is stored at the first path of the batch, the first attempt
  fails with status -1, and the ten attempts after it are made all the same.
\<close>

theorem failure_does_not_abort_batch_witness:
  "returns mkfifo_posix \<and> 0 < length batch \<and>
   run mkfifo_posix (take 0 batch) (init_frame photo_fs) = Some (init_frame photo_fs) \<and>
   mkfifo_posix (fs (init_frame photo_fs)) (fst (batch ! 0)) (snd (batch ! 0)) =
     Some (- 1, photo_fs) \<and>
   (- 1 :: int) \<noteq> 0 \<and>
   (\<exists>s' s'' tr.
     run mkfifo_posix (take (Suc 0) batch) (init_frame photo_fs) = Some s' \<and>
     status s' = Some (- 1) \<and> fs s' = photo_fs \<and>
     createfifonative_body mkfifo_posix (init_frame photo_fs) = Some s'' \<and>
     createfifonative (recording mkfifo_posix) (photo_fs, []) = Some (fs s'', tr) \<and>
     tr ! 0 = (fst (batch ! 0), snd (batch ! 0), - 1) \<and>
     calls_of tr = batch \<and>
     drop (Suc 0) (calls_of tr) = drop (Suc 0) batch \<and>
     status s'' = Some (snd (snd (last tr))))"
proof -
  have pos: "0 < length batch" by (simp add: length_batch)
  have r0: "run mkfifo_posix (take 0 batch) (init_frame photo_fs) = Some (init_frame photo_fs)"
    by simp
  have ans: "mkfifo_posix (fs (init_frame photo_fs)) (fst (batch ! 0)) (snd (batch ! 0)) =
      Some (- 1, photo_fs)"
    by (simp add: fs_init batch_def mkfifo_posix_def errno_photo_foo)
  have neq: "(- 1 :: int) \<noteq> 0" by simp
  from failure_does_not_abort_batch[OF mkfifo_posix_returns pos r0 ans neq]
    mkfifo_posix_returns pos r0 ans neq
  show ?thesis by (intro conjI)
qed

text \<open>
  Claim C2 as stated fails in its second half: the failure is not recorded in a result of
  its request. After a run whose first request fails, the one local variable holds 0,
  as it does after a run in which no request fails.
\<close>

theorem failure_not_kept_counterexample:
  "map_option statuses (createfifonative_body mkfifo_posix (init_frame photo_fs)) =
     Some [- 1, 0, 0, 0, 0, 0, 0, 0, 0, 0, 0] \<and>
   map_option status (createfifonative_body mkfifo_posix (init_frame photo_fs)) =
     Some (Some 0) \<and>
   map_option statuses (createfifonative_body mkfifo_posix (init_frame fresh_fs)) =
     Some [0, 0, 0, 0, 0, 0, 0, 0, 0, 0, 0] \<and>
   map_option status (createfifonative_body mkfifo_posix (init_frame fresh_fs)) =
     Some (Some 0)"
proof -
  have last_status: "map_option statuses (createfifonative_body mkfifo_posix (init_frame h)) = Some xs
      \<Longrightarrow> xs \<noteq> [] \<Longrightarrow>
      map_option status (createfifonative_body mkfifo_posix (init_frame h)) = Some (Some (last xs))"
    for h xs
  proof -
    assume a: "map_option statuses (createfifonative_body mkfifo_posix (init_frame h)) = Some xs"
      and ne: "xs \<noteq> []"
    then obtain s' where b: "createfifonative_body mkfifo_posix (init_frame h) = Some s'"
      and xs: "statuses s' = xs"
      by auto
    from xs ne have "log s' \<noteq> []" by (auto simp: statuses_def)
    then have "snd (snd (last (log s'))) = last (statuses s')"
      by (simp add: statuses_def last_map split_def)
    with final_status[OF b] xs b show ?thesis by simp
  qed
  from last_status[OF statuses_photo] last_status[OF statuses_fresh]
    statuses_photo statuses_fresh
  show ?thesis by simp
qed

section \<open>No list of results\<close>

lemma mkfifo_quiet_effects:
  "\<forall>g p m. map_option snd (mkfifo_quiet g p m) = map_option snd (mkfifo_posix g p m)"
  by (simp add: mkfifo_quiet_def option.map_comp comp_def split_def)

text \<open>
  Claim C1, amended. The entry point takes no list of requests and returns no list of
  results. For its fixed batch of eleven requests, the system call receives exactly one
  creation attempt for each request, in the order of the batch, path by path, and
  answers each with one status. What the caller gets back is the filesystem alone, and
  it is the same whatever statuses the system call answers: the statuses are not
  returned.
\<close>

theorem one_attempt_per_request_in_order:
  assumes "returns mkfifo"
  shows "\<exists>f' tr. createfifonative (recording mkfifo) (f, []) = Some (f', tr) \<and>
     length tr = length batch \<and>
     map fst tr = map fst batch \<and>
     createfifonative mkfifo f = Some f' \<and>
     (\<forall>mkfifo'. (\<forall>g p m. map_option snd (mkfifo' g p m) = map_option snd (mkfifo g p m)) \<longrightarrow>
        createfifonative mkfifo' f = Some f')"
proof -
  obtain s' where s': "run mkfifo batch (init_frame f) = Some s'"
    using run_returns[OF assms] by blast
  have b: "createfifonative_body mkfifo (init_frame f) = Some s'"
    using s' by (simp only: body_run)
  note t = entry_transcript[OF b]
  have len: "length (log s') = length batch"
    by (simp only: t(3) length_batch)
  have paths: "map fst (log s') = map fst batch"
    using run_paths[OF s'] by (simp add: log_init)
  have e: "createfifonative mkfifo f = Some (fs s')"
    by (rule entry_of_body[OF b])
  have same: "\<forall>mkfifo'. (\<forall>g p m. map_option snd (mkfifo' g p m) = map_option snd (mkfifo g p m)) \<longrightarrow>
        createfifonative mkfifo' f = Some (fs s')"
  proof (intro allI impI)
    fix mkfifo' :: "'a syscall"
    assume h: "\<forall>g p m. map_option snd (mkfifo' g p m) = map_option snd (mkfifo g p m)"
    from run_fs_only[OF h, of "init_frame f" "init_frame f" batch]
    have "createfifonative mkfifo' f = createfifonative mkfifo f"
      by (simp add: createfifonative_def body_run)
    with e show "createfifonative mkfifo' f = Some (fs s')" by simp
  qed
  from t(1) len paths e same show ?thesis
    by (intro exI[of _ "fs s'"] exI[of _ "log s'"] conjI)
qed

text \<open>
  The witness: the modelled system call on the filesystem with the picture, where the
  first attempt fails, and the same system call with its failures hushed.
\<close>

theorem one_attempt_per_request_in_order_witness:
  "returns mkfifo_posix \<and>
   (\<forall>g p m. map_option snd (mkfifo_quiet g p m) = map_option snd (mkfifo_posix g p m)) \<and>
   (\<exists>f' tr. createfifonative (recording mkfifo_posix) (photo_fs, []) = Some (f', tr) \<and>
     length tr = length batch \<and>
     map fst tr = map fst batch \<and>
     createfifonative mkfifo_posix photo_fs = Some f' \<and>
     createfifonative mkfifo_quiet photo_fs = Some f')"
proof -
  from one_attempt_per_request_in_order[OF mkfifo_posix_returns, of photo_fs]
  obtain f' tr where
    r: "createfifonative (recording mkfifo_posix) (photo_fs, []) = Some (f', tr)" and
    l: "length tr = length batch" and p: "map fst tr = map fst batch" and
    e: "createfifonative mkfifo_posix photo_fs = Some f'" and
    a: "\<forall>mkfifo'. (\<forall>g p m. map_option snd (mkfifo' g p m) = map_option snd (mkfifo_posix g p m)) \<longrightarrow>
        createfifonative mkfifo' photo_fs = Some f'"
    by blast
  from a mkfifo_quiet_effects have q: "createfifonative mkfifo_quiet photo_fs = Some f'"
    by blast
  from r l p e q have "\<exists>f' tr. createfifonative (recording mkfifo_posix) (photo_fs, []) = Some (f', tr) \<and>
     length tr = length batch \<and>
     map fst tr = map fst batch \<and>
     createfifonative mkfifo_posix photo_fs = Some f' \<and>
     createfifonative mkfifo_quiet photo_fs = Some f'"
    by (intro exI[of _ f'] exI[of _ tr] conjI)
  with mkfifo_posix_returns mkfifo_quiet_effects show ?thesis by (intro conjI)
qed

lemma statuses_rerun_data:
  "map_option statuses (rerun data_fs) =
     Some [- 1, - 1, - 1, - 1, - 1, - 1, - 1, - 1, - 1, - 1, - 1]"
proof -
  obtain s1 where s1: "createfifonative_body mkfifo_posix (init_frame data_fs) = Some s1"
    using body_posix_facts[of data_fs] by blast
  from rerun_facts[OF s1] show ?thesis
    by (auto simp: length_batch numeral_eq_Suc)
qed

text \<open>
  Claim C1 as stated fails: no list of results is returned. An invocation in which ten
  pipes are created and a second invocation in which every call fails return the very
  same thing to their caller.
\<close>

theorem no_result_list_counterexample:
  "createfifonative mkfifo_posix data_fs = map_option fs (rerun data_fs) \<and>
   map_option statuses (createfifonative_body mkfifo_posix (init_frame data_fs)) =
     Some [- 1, 0, 0, 0, 0, 0, 0, 0, 0, 0, 0] \<and>
   map_option statuses (rerun data_fs) =
     Some [- 1, - 1, - 1, - 1, - 1, - 1, - 1, - 1, - 1, - 1, - 1]"
  using fs_rerun[of data_fs, symmetric] statuses_data statuses_rerun_data
  by (intro conjI)

end
